theory Spec2Isabelle
  imports Main "HOL-Library.Sublist" "HOL-Library.AList"
begin

section \<open>Data model\<close>

text \<open>
  Python strings are modelled as \<open>string\<close>; every operation the two scripts perform on a
  string (\<open>replace\<close>, \<open>len\<close>, \<open>in\<close>, \<open>join\<close>, concatenation) only compares and counts
  elements, so an element stands for one code point.

  A document returned by \<open>json.load\<close> is a tree of \<open>None\<close>, \<open>bool\<close>, \<open>int\<close>, \<open>float\<close>,
  \<open>str\<close>, \<open>list\<close> and \<open>dict\<close>. A \<open>dict\<close> keeps its insertion order, so it is an
  association list. The scripts never compute with a \<open>float\<close>; it is carried as its
  value: a finite one as mantissa and binary exponent, or an infinity (\<open>True\<close> for the
  negative one), or not-a-number.
\<close>

datatype pyfloat = Finite int int | Infinity bool | NaN

datatype json =
    JNull
  | JBool bool
  | JInt int
  | JFloat pyfloat
  | JStr string
  | JArr "json list"
  | JObj "(string \<times> json) list"

text \<open>
  The ways a call can end other than by returning. \<open>ConfigNotFoundError\<close> and
  \<open>UnknownTargetError\<close> are the two places where \<open>resolve_target\<close> prints to standard
  error and calls \<open>sys.exit(1)\<close>; they carry the lines printed. The others are the Python
  exceptions that the code can raise on a configuration document of another shape.
\<close>

datatype error =
    ConfigNotFoundError "string list"
  | UnknownTargetError "string list"
  | JSONDecodeError
  | AttributeError
  | TypeError
  | KeyError

text \<open>
  The configuration document at \<open>CONFIG_PATH\<close>: missing, present but rejected by
  \<open>json.load\<close>, or present and parsed.
\<close>

datatype config_file = Absent | Malformed | Parsed json

record env =
  config_path :: string
  config :: config_file

section \<open>String primitives\<close>

text \<open>
  \<open>s.replace(old, new)\<close>: every non-overlapping occurrence of \<open>old\<close>, found from the
  left, is replaced by \<open>new\<close>. With an empty \<open>old\<close>, Python inserts \<open>new\<close> before every
  element and at the end.
\<close>

fun replace_nonempty :: "string \<Rightarrow> string \<Rightarrow> string \<Rightarrow> string" where
  "replace_nonempty old new [] = []"
| "replace_nonempty old new (c # cs) =
     (if old \<noteq> [] \<and> prefix old (c # cs)
      then new @ replace_nonempty old new (drop (length old) (c # cs))
      else c # replace_nonempty old new cs)"

definition str_replace :: "string \<Rightarrow> string \<Rightarrow> string \<Rightarrow> string" where
  "str_replace old new s =
     (if old = [] then new @ concat (map (\<lambda>c. c # new) s)
      else replace_nonempty old new s)"

text \<open>\<open>sep.join(xs)\<close>\<close>

fun str_join :: "string \<Rightarrow> string list \<Rightarrow> string" where
  "str_join sep [] = []"
| "str_join sep [x] = x"
| "str_join sep (x # y # ys) = x @ sep @ str_join sep (y # ys)"

section \<open>Target resolver\<close>

text \<open>
  The test at the head of \<open>resolve_target\<close>:
  \<^verbatim>\<open>cleaned = name.replace("-", "")\<close>,
  \<^verbatim>\<open>len(cleaned) == 32 and all(c in "0123456789abcdef" for c in cleaned)\<close>.
\<close>

definition looks_like_id :: "string \<Rightarrow> bool" where
  "looks_like_id name =
     (let cleaned = str_replace ''-'' '''' name
      in length cleaned = 32 \<and> list_all (\<lambda>c. c \<in> set ''0123456789abcdef'') cleaned)"

text \<open>
  \<open>load_config\<close> of \<open>notion_client.py\<close>: exit when the file is missing, else
  \<open>json.load\<close>.
\<close>

definition load_config :: "env \<Rightarrow> error + json" where
  "load_config e =
     (case config e of
        Absent \<Rightarrow> Inl (ConfigNotFoundError [''Error: Config not found at '' @ config_path e])
      | Malformed \<Rightarrow> Inl JSONDecodeError
      | Parsed j \<Rightarrow> Inr j)"

text \<open>\<open>config.get("targets", {})\<close>: only a \<open>dict\<close> has \<open>get\<close>.\<close>

definition get_targets :: "json \<Rightarrow> error + json" where
  "get_targets cfg =
     (case cfg of
        JObj kvs \<Rightarrow> (case map_of kvs ''targets'' of None \<Rightarrow> Inr (JObj []) | Some t \<Rightarrow> Inr t)
      | _ \<Rightarrow> Inl AttributeError)"

text \<open>
  \<open>name in targets\<close>: key membership for a \<open>dict\<close>, element membership for a \<open>list\<close>,
  substring test for a \<open>str\<close>, \<open>TypeError\<close> for the other values.
\<close>

definition py_contains :: "json \<Rightarrow> string \<Rightarrow> error + bool" where
  "py_contains targets name =
     (case targets of
        JObj kvs \<Rightarrow> Inr (name \<in> fst ` set kvs)
      | JArr xs \<Rightarrow> Inr (JStr name \<in> set xs)
      | JStr s \<Rightarrow> Inr (sublist name s)
      | _ \<Rightarrow> Inl TypeError)"

text \<open>\<open>obj[key]\<close> with a string key: only a \<open>dict\<close> accepts it.\<close>

definition py_getitem :: "json \<Rightarrow> string \<Rightarrow> error + json" where
  "py_getitem obj key =
     (case obj of
        JObj kvs \<Rightarrow> (case map_of kvs key of None \<Rightarrow> Inl KeyError | Some v \<Rightarrow> Inr v)
      | _ \<Rightarrow> Inl TypeError)"

text \<open>
  The two prints before \<open>sys.exit(1)\<close>. The second reads \<open>targets.keys()\<close>, which only a
  \<open>dict\<close> has.
\<close>

definition unknown_target :: "json \<Rightarrow> string \<Rightarrow> error" where
  "unknown_target targets name =
     (case targets of
        JObj kvs \<Rightarrow>
          UnknownTargetError
            [''Error: Target '' @ [CHR 0x27] @ name @ [CHR 0x27] @ '' not found in notion-config.json'',
             ''Available targets: '' @ str_join '', '' (map fst kvs)]
      | _ \<Rightarrow> AttributeError)"

text \<open>The part of \<open>resolve_target\<close> after the configuration is loaded.\<close>

definition lookup_target :: "json \<Rightarrow> string \<Rightarrow> error + json" where
  "lookup_target cfg name =
     (case get_targets cfg of
        Inl err \<Rightarrow> Inl err
      | Inr targets \<Rightarrow>
          (case py_contains targets name of
             Inl err \<Rightarrow> Inl err
           | Inr False \<Rightarrow> Inl (unknown_target targets name)
           | Inr True \<Rightarrow>
               (case py_getitem targets name of
                  Inl err \<Rightarrow> Inl err
                | Inr entry \<Rightarrow> py_getitem entry ''id'')))"

text \<open>\<open>resolve_target\<close> of \<open>notion_client.py\<close>.\<close>

definition resolve_target :: "env \<Rightarrow> string \<Rightarrow> error + json" where
  "resolve_target e name =
     (if looks_like_id name then Inr (JStr name)
      else (case load_config e of
              Inl err \<Rightarrow> Inl err
            | Inr cfg \<Rightarrow> lookup_target cfg name))"

text \<open>
  \<open>resolve_target\<close> of \<open>create_project.py\<close>, which reads the configuration in place
  instead of calling \<open>load_config\<close>.
\<close>

definition resolve_target_cp :: "env \<Rightarrow> string \<Rightarrow> error + json" where
  "resolve_target_cp e name =
     (if looks_like_id name then Inr (JStr name)
      else (case config e of
              Absent \<Rightarrow> Inl (ConfigNotFoundError [''Error: Config not found at '' @ config_path e])
            | Malformed \<Rightarrow> Inl JSONDecodeError
            | Parsed cfg \<Rightarrow> lookup_target cfg name))"

section \<open>Template engine\<close>

text \<open>The token \<^verbatim>\<open>f"{{{{{key}}}}}"\<close>: two opening braces, the key, two closing braces.\<close>

definition placeholder :: "string \<Rightarrow> string" where
  "placeholder key = ''{{'' @ key @ ''}}''"

text \<open>
  The loop over \<open>replacements.items()\<close> on a string: one \<open>replace\<close> per key, in the
  order of the dict, each on the string the previous one left. A replacement set is the
  association list of its items.
\<close>

fun replace_str :: "string \<Rightarrow> (string \<times> string) list \<Rightarrow> string" where
  "replace_str s [] = s"
| "replace_str s ((key, val) # rest) =
     replace_str (str_replace (placeholder key) val s) rest"

text \<open>
  \<open>replace_placeholders\<close>: a string goes through the loop, a list and a dict are rebuilt
  from the results on their items and values, anything else is returned as it is.
\<close>

fun replace_placeholders :: "json \<Rightarrow> (string \<times> string) list \<Rightarrow> json" where
  "replace_placeholders (JStr s) replacements = JStr (replace_str s replacements)"
| "replace_placeholders (JArr items) replacements =
     JArr (map (\<lambda>item. replace_placeholders item replacements) items)"
| "replace_placeholders (JObj kvs) replacements =
     JObj (map (\<lambda>(k, v). (k, replace_placeholders v replacements)) kvs)"
| "replace_placeholders obj replacements = obj"

text \<open>
  \<open>body[key] = value\<close> and \<open>body.pop(key, None)\<close> on a \<open>dict\<close>: an existing key keeps
  its place, a new one goes last.
\<close>

definition dict_set :: "string \<Rightarrow> json \<Rightarrow> (string \<times> json) list \<Rightarrow> (string \<times> json) list" where
  "dict_set key v kvs = AList.update key v kvs"

definition dict_pop :: "string \<Rightarrow> (string \<times> json) list \<Rightarrow> (string \<times> json) list" where
  "dict_pop key kvs = AList.delete key kvs"

text \<open>
  \<open>create_project_page\<close> of \<open>create_project.py\<close>, from the loaded template to the keyword
  arguments handed to \<open>client.pages.create\<close>. \<open>today\<close> is \<open>date.today().isoformat()\<close>.
  Item assignment on a body that is not a \<open>dict\<close> raises \<open>TypeError\<close>.
\<close>

definition create_project_page :: "json \<Rightarrow> json \<Rightarrow> string \<Rightarrow> string \<Rightarrow> string \<Rightarrow> error + json" where
  "create_project_page template parent_id project_name today icon =
     (let replacements = [(''PROJECT_NAME'', project_name), (''DATE'', today)];
          body = replace_placeholders template replacements
      in case body of
           JObj kvs \<Rightarrow>
             Inr (JObj (dict_pop ''object''
                    (dict_set ''icon'' (JObj [(''type'', JStr ''emoji''), (''emoji'', JStr icon)])
                      (dict_set ''parent'' (JObj [(''page_id'', parent_id)]) kvs))))
         | _ \<Rightarrow> Inl TypeError)"

text \<open>
  \<open>cmd_create_page\<close> of \<open>notion_client.py\<close>, from the loaded template (\<open>None\<close> when
  \<open>--template\<close> is not given) and the title to the keyword arguments handed to
  \<open>client.pages.create\<close>.
\<close>

definition default_page_body :: "string option \<Rightarrow> json" where
  "default_page_body title =
     JObj [(''properties'',
             JObj [(''title'',
               JObj [(''title'',
                 JArr [JObj [(''type'', JStr ''text''),
                             (''text'', JObj [(''content'',
                                JStr (case title of None \<Rightarrow> ''Untitled''
                                      | Some t \<Rightarrow> if t = [] then ''Untitled'' else t))])]])])]),
           (''children'', JArr [])]"

definition cmd_create_page :: "json option \<Rightarrow> string option \<Rightarrow> json \<Rightarrow> error + json" where
  "cmd_create_page template title parent_id =
     (let body = (case template of Some t \<Rightarrow> t | None \<Rightarrow> default_page_body title)
      in case body of
           JObj kvs \<Rightarrow> Inr (JObj (dict_set ''parent'' (JObj [(''page_id'', parent_id)]) kvs))
         | _ \<Rightarrow> Inl TypeError)"

section \<open>The store: documents as Python objects\<close>

text \<open>
  Whether \<open>replace_placeholders\<close> changes the document it is given is a question about
  objects, not values: a \<open>list\<close> or \<open>dict\<close> is an object in the store that holds
  references to its items. The store is the list of the objects allocated so far; a
  reference is an index into it, and a new object goes at the end.
\<close>

type_synonym addr = nat

datatype pyobj =
    ONone
  | OBool bool
  | OInt int
  | OFloat pyfloat
  | OStr string
  | OList "addr list"
  | ODict "(string \<times> addr) list"

type_synonym heap = "pyobj list"

definition alloc :: "heap \<Rightarrow> pyobj \<Rightarrow> addr \<times> heap" where
  "alloc h obj = (length h, h @ [obj])"

text \<open>
  The document a reference stands for, read down to a depth of at most \<open>n\<close> objects;
  \<open>None\<close> when the reference dangles or the depth does not suffice.
\<close>

fun read_doc :: "nat \<Rightarrow> heap \<Rightarrow> addr \<Rightarrow> json option" where
  "read_doc 0 h a = None"
| "read_doc (Suc n) h a =
     (if a < length h then
        (case h ! a of
           ONone \<Rightarrow> Some JNull
         | OBool b \<Rightarrow> Some (JBool b)
         | OInt i \<Rightarrow> Some (JInt i)
         | OFloat f \<Rightarrow> Some (JFloat f)
         | OStr s \<Rightarrow> Some (JStr s)
         | OList items \<Rightarrow> map_option JArr (those (map (read_doc n h) items))
         | ODict kvs \<Rightarrow>
             map_option (\<lambda>vs. JObj (zip (map fst kvs) vs))
               (those (map (read_doc n h) (map snd kvs))))
      else None)"

text \<open>
  The loop over \<open>replacements.items()\<close> in the store: each \<open>obj.replace\<close> yields a new
  string object, to which the local name \<open>obj\<close> is then bound; with no replacement the
  object passed in is returned.
\<close>

fun replace_loop :: "heap \<Rightarrow> addr \<Rightarrow> string \<Rightarrow> (string \<times> string) list \<Rightarrow> addr \<times> heap" where
  "replace_loop h a s [] = (a, h)"
| "replace_loop h a s ((key, val) # rest) =
     (let s' = str_replace (placeholder key) val s;
          (a', h') = alloc h (OStr s')
      in replace_loop h' a' s' rest)"

text \<open>
  A comprehension \<open>[f(item) for item in items]\<close> whose \<open>f\<close> works on the store: the
  items are visited from the left and each call starts from the store the previous one
  left.
\<close>

fun comprehension ::
  "(heap \<Rightarrow> addr \<Rightarrow> (addr \<times> heap) option) \<Rightarrow> heap \<Rightarrow> addr list \<Rightarrow> (addr list \<times> heap) option" where
  "comprehension f h [] = Some ([], h)"
| "comprehension f h (a # as) =
     (case f h a of
        None \<Rightarrow> None
      | Some (a', h1) \<Rightarrow>
          (case comprehension f h1 as of
             None \<Rightarrow> None
           | Some (as', h2) \<Rightarrow> Some (a' # as', h2)))"

text \<open>
  \<open>replace_placeholders\<close> on the store. It returns the reference to the result and the
  store after the call. The first argument bounds the depth of the recursion, as the
  interpreter's recursion limit does; \<open>None\<close> when it is exceeded.
\<close>

fun replace_placeholders_h ::
  "nat \<Rightarrow> heap \<Rightarrow> addr \<Rightarrow> (string \<times> string) list \<Rightarrow> (addr \<times> heap) option" where
  "replace_placeholders_h 0 h obj replacements = None"
| "replace_placeholders_h (Suc n) h obj replacements =
     (if obj < length h then
        (case h ! obj of
           OStr s \<Rightarrow> Some (replace_loop h obj s replacements)
         | OList items \<Rightarrow>
             (case comprehension (\<lambda>h' item. replace_placeholders_h n h' item replacements) h items of
                None \<Rightarrow> None
              | Some (items', h') \<Rightarrow> Some (alloc h' (OList items')))
         | ODict kvs \<Rightarrow>
             (case comprehension (\<lambda>h' v. replace_placeholders_h n h' v replacements) h (map snd kvs) of
                None \<Rightarrow> None
              | Some (vs', h') \<Rightarrow> Some (alloc h' (ODict (zip (map fst kvs) vs'))))
         | _ \<Rightarrow> Some (obj, h))
      else None)"

section \<open>The specification's notions\<close>

text \<open>
  The shape of a raw identifier, in the specification's words: with the dashes removed,
  exactly 32 characters, each a lowercase hexadecimal digit.
\<close>

definition hex32_shape :: "string \<Rightarrow> bool" where
  "hex32_shape s =
     (let stripped = filter (\<lambda>c. c \<noteq> CHR ''-'') s
      in length stripped = 32 \<and> (\<forall>c \<in> set stripped. c \<in> set ''0123456789abcdef''))"

text \<open>
  A tree identical to the input except in its string leaves: \<open>map_strings f\<close> applies \<open>f\<close>
  to every string leaf and keeps everything else, the keys of mappings included.
  \<open>skeleton\<close> empties the string leaves, \<open>string_leaves\<close> lists them depth first.
\<close>

fun map_strings :: "(string \<Rightarrow> string) \<Rightarrow> json \<Rightarrow> json" where
  "map_strings f (JStr s) = JStr (f s)"
| "map_strings f (JArr xs) = JArr (map (map_strings f) xs)"
| "map_strings f (JObj kvs) = JObj (map (\<lambda>(k, v). (k, map_strings f v)) kvs)"
| "map_strings f doc = doc"

definition skeleton :: "json \<Rightarrow> json" where
  "skeleton doc = map_strings (\<lambda>s. []) doc"

fun string_leaves :: "json \<Rightarrow> string list" where
  "string_leaves (JStr s) = [s]"
| "string_leaves (JArr xs) = concat (map string_leaves xs)"
| "string_leaves (JObj kvs) = concat (map (\<lambda>(k, v). string_leaves v) kvs)"
| "string_leaves doc = []"

text \<open>
  Simultaneous substitution, the reading under which every occurrence of a token in the
  input is replaced by the value of its key and by nothing else: the string is scanned
  once from the left; where the token of a key begins (the first such key in the order
  of the replacement set), its value is written and the scan goes on behind the token;
  anything else is copied. Text written is not scanned again.
\<close>

fun find_token :: "(string \<times> string) list \<Rightarrow> string \<Rightarrow> (string \<times> string) option" where
  "find_token [] s = None"
| "find_token ((key, val) # rest) s =
     (if prefix (placeholder key) s then Some (key, val) else find_token rest s)"

function simultaneous_str :: "(string \<times> string) list \<Rightarrow> string \<Rightarrow> string" where
  "simultaneous_str replacements [] = []"
| "simultaneous_str replacements (c # cs) =
     (case find_token replacements (c # cs) of
        Some (key, val) \<Rightarrow>
          val @ simultaneous_str replacements (drop (length (placeholder key)) (c # cs))
      | None \<Rightarrow> c # simultaneous_str replacements cs)"
  by pat_completeness auto
termination
  by (relation "measure (\<lambda>(replacements, s). length s)") (auto simp: placeholder_def)

definition substitute_simultaneous :: "json \<Rightarrow> (string \<times> string) list \<Rightarrow> json" where
  "substitute_simultaneous doc replacements = map_strings (simultaneous_str replacements) doc"

section \<open>Properties of the target resolver\<close>

lemma replace_nonempty_dash: "replace_nonempty ''-'' '''' s = filter (\<lambda>c. c \<noteq> CHR ''-'') s"
  by (induction s) auto

lemma str_replace_dash: "str_replace ''-'' '''' s = filter (\<lambda>c. c \<noteq> CHR ''-'') s"
  by (simp add: str_replace_def replace_nonempty_dash)

lemma looks_like_id_iff: "looks_like_id s = hex32_shape s"
  by (simp add: looks_like_id_def hex32_shape_def str_replace_dash list_all_iff Let_def)

lemma resolve_target_cp_eq: "resolve_target_cp e name = resolve_target e name"
  by (simp add: resolve_target_cp_def resolve_target_def load_config_def split: config_file.splits)


text \<open>
  C1. A string whose dash-stripped form is 32 lowercase hexadecimal digits is returned
  as it was given, dashes included, by both copies of \<open>resolve_target\<close>, in every
  environment: whatever the configuration document holds, and also when it is missing.
\<close>

theorem resolve_raw_identifier:
  assumes "hex32_shape s"
  shows "resolve_target e s = Inr (JStr s) \<and> resolve_target_cp e s = Inr (JStr s)"
  using assms by (simp add: resolve_target_cp_def resolve_target_def looks_like_id_iff)

theorem resolve_raw_identifier_witness:
  "hex32_shape ''a1b2c3d4-e5f6-7890-abcd-ef1234567890'' \<and>
   resolve_target
     \<lparr>config_path = ''notion-config.json'',
      config = Parsed (JObj [(''targets'',
                 JObj [(''a1b2c3d4-e5f6-7890-abcd-ef1234567890'', JObj [(''id'', JStr ''xyz'')])])])\<rparr>
     ''a1b2c3d4-e5f6-7890-abcd-ef1234567890''
     = Inr (JStr ''a1b2c3d4-e5f6-7890-abcd-ef1234567890'')"
proof -
  have h: "hex32_shape ''a1b2c3d4-e5f6-7890-abcd-ef1234567890''"
    by (simp add: hex32_shape_def)
  show ?thesis using h resolve_raw_identifier [OF h] by simp
qed

text \<open>
  C3. A name that has not the shape of a raw identifier and is a key of the \<open>targets\<close>
  mapping of the configuration, its entry being a record with an \<open>id\<close>, resolves to that
  \<open>id\<close>.
\<close>

theorem resolve_friendly_name:
  assumes "\<not> hex32_shape n"
      and "config e = Parsed (JObj cfg)"
      and "map_of cfg ''targets'' = Some (JObj targets)"
      and "map_of targets n = Some (JObj entry)"
      and "map_of entry ''id'' = Some v"
  shows "resolve_target e n = Inr v \<and> resolve_target_cp e n = Inr v"
proof -
  from assms(4) have "n \<in> fst ` set targets"
    by (metis domI dom_map_of_conv_image_fst)
  with assms show ?thesis
    by (simp add: resolve_target_cp_def resolve_target_def looks_like_id_iff load_config_def
        lookup_target_def get_targets_def py_contains_def py_getitem_def)
qed

theorem resolve_friendly_name_witness:
  "\<not> hex32_shape ''project-db'' \<and>
   resolve_target
     \<lparr>config_path = ''notion-config.json'',
      config = Parsed (JObj [(''targets'', JObj [(''project-db'', JObj [(''id'', JStr ''xyz'')])])])\<rparr>
     ''project-db'' = Inr (JStr ''xyz'')"
proof -
  have h: "\<not> hex32_shape ''project-db''"
    by (simp add: hex32_shape_def)
  show ?thesis
    using h resolve_friendly_name [OF h, of
        "\<lparr>config_path = ''notion-config.json'',
          config = Parsed (JObj [(''targets'', JObj [(''project-db'', JObj [(''id'', JStr ''xyz'')])])])\<rparr>"
        "[(''targets'', JObj [(''project-db'', JObj [(''id'', JStr ''xyz'')])])]"
        "[(''project-db'', JObj [(''id'', JStr ''xyz'')])]"
        "[(''id'', JStr ''xyz'')]" "JStr ''xyz''"]
    by simp
qed



text \<open>
  C8. When the configuration document is missing, a name that has not the shape of a raw
  identifier ends the call at the exit for a missing configuration; nothing is looked
  up.
\<close>

theorem resolve_config_missing:
  assumes "\<not> hex32_shape n" and "config e = Absent"
  shows "resolve_target e n = Inl (ConfigNotFoundError [''Error: Config not found at '' @ config_path e])
       \<and> resolve_target_cp e n = Inl (ConfigNotFoundError [''Error: Config not found at '' @ config_path e])"
  using assms
  by (simp add: resolve_target_def resolve_target_cp_def looks_like_id_iff load_config_def)

theorem resolve_config_missing_witness:
  "\<not> hex32_shape ''project-db'' \<and>
   resolve_target \<lparr>config_path = ''notion-config.json'', config = Absent\<rparr> ''project-db''
     = Inl (ConfigNotFoundError [''Error: Config not found at notion-config.json''])"
proof -
  have h: "\<not> hex32_shape ''project-db''"
    by (simp add: hex32_shape_def)
  show ?thesis
    using h resolve_config_missing [OF h, of "\<lparr>config_path = ''notion-config.json'', config = Absent\<rparr>"]
    by simp
qed

text \<open>
  C10. When the configuration document is a mapping without a \<open>targets\<close> key, every name
  that has not the shape of a raw identifier ends the call at the exit for an unknown
  target, and the list of available targets printed is empty.
\<close>

theorem resolve_targets_key_missing:
  assumes "\<not> hex32_shape n"
      and "config e = Parsed (JObj cfg)"
      and "''targets'' \<notin> fst ` set cfg"
  shows "resolve_target e n =
           Inl (UnknownTargetError
                 [''Error: Target '' @ [CHR 0x27] @ n @ [CHR 0x27] @ '' not found in notion-config.json'',
                  ''Available targets: ''])
       \<and> resolve_target_cp e n = resolve_target e n"
proof -
  from assms(3) have "map_of cfg ''targets'' = None"
    by (simp add: map_of_eq_None_iff)
  with assms(1,2) have "resolve_target e n =
           Inl (UnknownTargetError
                 [''Error: Target '' @ [CHR 0x27] @ n @ [CHR 0x27] @ '' not found in notion-config.json'',
                  ''Available targets: ''])"
    by (simp add: resolve_target_def looks_like_id_iff load_config_def
        lookup_target_def get_targets_def py_contains_def unknown_target_def)
  then show ?thesis by (simp only: resolve_target_cp_eq)
qed

theorem resolve_targets_key_missing_witness:
  "\<not> hex32_shape ''missing-target'' \<and>
   resolve_target
     \<lparr>config_path = ''notion-config.json'', config = Parsed (JObj [(''version'', JInt 1)])\<rparr>
     ''missing-target''
     = Inl (UnknownTargetError
             [''Error: Target '' @ [CHR 0x27] @ ''missing-target'' @ [CHR 0x27] @ '' not found in notion-config.json'',
              ''Available targets: ''])"
proof -
  have h: "\<not> hex32_shape ''missing-target''"
    by (simp add: hex32_shape_def)
  show ?thesis
    using h resolve_targets_key_missing [OF h, of
        "\<lparr>config_path = ''notion-config.json'', config = Parsed (JObj [(''version'', JInt 1)])\<rparr>"
        "[(''version'', JInt 1)]"]
    by simp
qed

section \<open>Properties of the template engine\<close>

lemma replace_str_fold:
  "replace_str s reps = fold (\<lambda>(k, v). str_replace (placeholder k) v) reps s"
  by (induction s reps rule: replace_str.induct) simp_all

lemma replace_placeholders_map_strings:
  "replace_placeholders doc reps = map_strings (\<lambda>s. replace_str s reps) doc"
  by (induction doc reps rule: replace_placeholders.induct) auto

lemma map_strings_fixed:
  "(\<And>s. s \<in> set (string_leaves doc) \<Longrightarrow> f s = s) \<Longrightarrow> map_strings f doc = doc"
proof (induction f doc rule: map_strings.induct)
  case (2 f xs)
  then show ?case by (auto intro!: map_idI)
next
  case (3 f kvs)
  have "map_strings f v = v" if kv: "(k, v) \<in> set kvs" for k v
  proof -
    have "\<And>s. s \<in> set (string_leaves v) \<Longrightarrow> f s = s"
      using "3.prems" kv by force
    with "3.IH" [OF kv refl] show ?thesis by blast
  qed
  then show ?case by (auto intro!: map_idI)
qed simp_all

lemma skeleton_map_strings: "skeleton (map_strings f doc) = skeleton doc"
  unfolding skeleton_def
  by (induction f doc rule: map_strings.induct) auto

lemma string_leaves_map_strings: "string_leaves (map_strings f doc) = map f (string_leaves doc)"
proof (induction f doc rule: map_strings.induct)
  case (2 f xs)
  then show ?case by (auto simp: map_concat comp_def intro!: arg_cong[where f=concat])
next
  case (3 f kvs)
  then show ?case by (auto simp: map_concat comp_def case_prod_unfold intro!: arg_cong[where f=concat])
qed simp_all

lemma replace_nonempty_absent:
  "\<not> sublist old s \<Longrightarrow> replace_nonempty old new s = s"
proof (induction s)
  case Nil
  then show ?case by simp
next
  case (Cons c cs)
  from Cons.prems have "\<not> prefix old (c # cs)" and "\<not> sublist old cs"
    by (auto simp: sublist_Cons_right)
  with Cons.IH show ?case by simp
qed

lemma str_replace_absent:
  "old \<noteq> [] \<Longrightarrow> \<not> sublist old s \<Longrightarrow> str_replace old new s = s"
  by (simp add: str_replace_def replace_nonempty_absent)

lemma placeholder_nonempty: "placeholder k \<noteq> []"
  by (simp add: placeholder_def)

lemma replace_str_absent:
  "(\<And>k. k \<in> fst ` set reps \<Longrightarrow> \<not> sublist (placeholder k) s) \<Longrightarrow> replace_str s reps = s"
proof (induction s reps rule: replace_str.induct)
  case (1 s)
  then show ?case by simp
next
  case (2 s key val rest)
  have "str_replace (placeholder key) val s = s"
    using 2(2)[of key] by (simp add: str_replace_absent placeholder_nonempty)
  with 2 show ?case by simp
qed

lemma replace_str_append:
  "replace_str s (r1 @ r2) = replace_str (replace_str s r1) r2"
  by (induction s r1 rule: replace_str.induct) simp_all

lemma replace_placeholders_append:
  "replace_placeholders doc (r1 @ r2) = replace_placeholders (replace_placeholders doc r1) r2"
  by (induction doc r1 rule: replace_placeholders.induct) (auto simp: replace_str_append)

lemma str_replace_self: "old \<noteq> [] \<Longrightarrow> str_replace old new old = new"
  by (cases old) (simp_all add: str_replace_def)

lemma replace_nonempty_single:
  "replace_nonempty (placeholder k) v s = simultaneous_str [(k, v)] s"
  by (induction "[(k, v)]" s rule: simultaneous_str.induct) (auto simp: placeholder_nonempty)

lemma replace_nonempty_leftmost:
  assumes "old \<noteq> []" and "\<not> sublist old (a @ butlast old)"
  shows "replace_nonempty old new (a @ old @ b) = a @ new @ replace_nonempty old new b"
  using assms
proof (induction a)
  case Nil
  then show ?case by (cases old) simp_all
next
  case (Cons c a)
  have np: "\<not> prefix old (c # a @ old @ b)"
  proof
    assume "prefix old (c # a @ old @ b)"
    then have "old = take (length old) (c # a @ old @ b)"
      by (metis append_eq_conv_conj prefix_def)
    also have "\<dots> = take (length old) ((c # a) @ butlast old)"
      using Cons.prems(1) by (cases old rule: rev_cases) auto
    finally have "prefix old ((c # a) @ butlast old)"
      by (metis take_is_prefix)
    with Cons.prems(2) show False by (auto dest: prefix_imp_sublist simp del: append_Cons)
  qed
  from Cons.prems(2) have "\<not> sublist old (a @ butlast old)"
    by (auto simp: sublist_Cons_right)
  with Cons.IH Cons.prems(1) np show ?case by simp
qed

lemma str_replace_leftmost:
  assumes "old \<noteq> []" and "\<not> sublist old (a @ butlast old)"
  shows "str_replace old new (a @ old @ b) = a @ new @ str_replace old new b"
  using assms by (simp add: str_replace_def replace_nonempty_leftmost)

text \<open>
  C6. With an empty replacement set the document is returned as it is.
\<close>

theorem substitute_empty_identity: "replace_placeholders doc [] = doc"
  by (simp add: replace_placeholders_map_strings map_strings_fixed)

theorem substitute_empty_identity_witness:
  "replace_placeholders (JArr [JStr ''{{PROJECT_NAME}}'', JNull]) [] = JArr [JStr ''{{PROJECT_NAME}}'', JNull]"
  using substitute_empty_identity [of "JArr [JStr ''{{PROJECT_NAME}}'', JNull]"] by simp

text \<open>
  C2 does not hold as stated when the value of one key contains the token of a later
  key. In the leaf \<open>{{A}}\<close> the only token is that of \<open>A\<close>, whose value is \<open>{{B}}\<close>;
  replacing that occurrence gives \<open>{{B}}\<close>, but the code returns \<open>x\<close>.
\<close>

theorem substitute_chained_counterexample:
  "map_of [(''A'', ''{{B}}''), (''B'', ''x'')] ''A'' = Some ''{{B}}'' \<and>
   substitute_simultaneous (JStr ''{{A}}'') [(''A'', ''{{B}}''), (''B'', ''x'')] = JStr ''{{B}}'' \<and>
   replace_placeholders (JStr ''{{A}}'') [(''A'', ''{{B}}''), (''B'', ''x'')] = JStr ''x''"
  by (simp add: substitute_simultaneous_def placeholder_def str_replace_def)

text \<open>
  C2, amended. The result is the input with every string leaf sent through the keys of
  the replacement set in their order, each key by one \<open>replace\<close> on the string the keys
  before it left: the tree, the keys of its mappings and its other leaves are those of
  the input, and the string leaves are the images of the input's, in the same order. One
  such pass replaces the leftmost occurrence of the token and goes on behind it, and
  leaves a string without the token as it is; so a leaf in which no token of the
  replacement set occurs is returned unchanged. For a replacement set of one key the
  result is the simultaneous substitution.
\<close>

theorem substitute_sequential:
  "replace_placeholders doc reps =
     map_strings (\<lambda>s. fold (\<lambda>(k, v). str_replace (placeholder k) v) reps s) doc
   \<and> skeleton (replace_placeholders doc reps) = skeleton doc
   \<and> string_leaves (replace_placeholders doc reps) =
       map (\<lambda>s. fold (\<lambda>(k, v). str_replace (placeholder k) v) reps s) (string_leaves doc)
   \<and> (\<forall>a b. \<not> sublist (placeholder key) (a @ butlast (placeholder key)) \<longrightarrow>
         str_replace (placeholder key) val (a @ placeholder key @ b) =
           a @ val @ str_replace (placeholder key) val b)
   \<and> (\<forall>s. \<not> sublist (placeholder key) s \<longrightarrow> str_replace (placeholder key) val s = s)
   \<and> (\<forall>s \<in> set (string_leaves doc).
         (\<forall>k \<in> fst ` set reps. \<not> sublist (placeholder k) s) \<longrightarrow>
         fold (\<lambda>(k, v). str_replace (placeholder k) v) reps s = s)
   \<and> replace_placeholders doc [(key, val)] = substitute_simultaneous doc [(key, val)]"
proof -
  have eq: "replace_placeholders doc reps =
     map_strings (\<lambda>s. fold (\<lambda>(k, v). str_replace (placeholder k) v) reps s) doc"
    by (simp add: replace_placeholders_map_strings replace_str_fold)
  have sk: "skeleton (replace_placeholders doc reps) = skeleton doc"
    by (simp only: eq skeleton_map_strings)
  have lv: "string_leaves (replace_placeholders doc reps) =
       map (\<lambda>s. fold (\<lambda>(k, v). str_replace (placeholder k) v) reps s) (string_leaves doc)"
    by (simp only: eq string_leaves_map_strings)
  have lm: "\<forall>a b. \<not> sublist (placeholder key) (a @ butlast (placeholder key)) \<longrightarrow>
         str_replace (placeholder key) val (a @ placeholder key @ b) =
           a @ val @ str_replace (placeholder key) val b"
    using str_replace_leftmost [OF placeholder_nonempty] by blast
  have ab: "\<forall>s. \<not> sublist (placeholder key) s \<longrightarrow> str_replace (placeholder key) val s = s"
    using str_replace_absent [OF placeholder_nonempty] by blast
  have un: "\<forall>s \<in> set (string_leaves doc).
         (\<forall>k \<in> fst ` set reps. \<not> sublist (placeholder k) s) \<longrightarrow>
         fold (\<lambda>(k, v). str_replace (placeholder k) v) reps s = s"
  proof (intro ballI impI)
    fix s
    assume "\<forall>k \<in> fst ` set reps. \<not> sublist (placeholder k) s"
    then have "replace_str s reps = s"
      by (intro replace_str_absent) blast
    then show "fold (\<lambda>(k, v). str_replace (placeholder k) v) reps s = s"
      by (simp only: replace_str_fold)
  qed
  have "replace_str s [(key, val)] = simultaneous_str [(key, val)] s" for s
    by (simp add: str_replace_def placeholder_nonempty replace_nonempty_single)
  then have si: "replace_placeholders doc [(key, val)] = substitute_simultaneous doc [(key, val)]"
    by (simp add: replace_placeholders_map_strings substitute_simultaneous_def)
  from eq sk lv lm ab un si show ?thesis by blast
qed

theorem substitute_sequential_witness:
  "\<not> sublist (placeholder ''PROJECT_NAME'') ''{{OTHER}}'' \<and>
   replace_placeholders
     (JObj [(''{{PROJECT_NAME}}'', JArr [JStr ''{{PROJECT_NAME}} Launch'', JStr ''{{OTHER}}'', JInt 3])])
     [(''PROJECT_NAME'', ''Foo'')]
   = JObj [(''{{PROJECT_NAME}}'', JArr [JStr ''Foo Launch'', JStr ''{{OTHER}}'', JInt 3])]"
proof -
  have h: "\<not> sublist (placeholder ''PROJECT_NAME'') ''{{OTHER}}''"
    by code_simp
  have e: "str_replace (placeholder ''PROJECT_NAME'') ''Foo'' ''{{PROJECT_NAME}} Launch'' = ''Foo Launch''"
    by code_simp
  from h e show ?thesis
    using substitute_sequential [of
        "JObj [(''{{PROJECT_NAME}}'', JArr [JStr ''{{PROJECT_NAME}} Launch'', JStr ''{{OTHER}}'', JInt 3])]"
        "[(''PROJECT_NAME'', ''Foo'')]" "''PROJECT_NAME''" "''Foo''"]
    by simp
qed

lemma simultaneous_str_token:
  "simultaneous_str ((ka, va) # rest) (placeholder ka) = va"
  by (simp add: placeholder_def)

lemma replace_str_chained:
  assumes "\<not> sublist (placeholder kb) (a @ butlast (placeholder kb))"
      and "\<not> sublist (placeholder kb) b"
  shows "replace_str (placeholder ka) [(ka, a @ placeholder kb @ b), (kb, vb)] = a @ vb @ b"
proof -
  have "replace_str (placeholder ka) [(ka, a @ placeholder kb @ b), (kb, vb)] =
          str_replace (placeholder kb) vb (a @ placeholder kb @ b)"
    by (simp add: str_replace_self placeholder_nonempty)
  also have "\<dots> = a @ vb @ str_replace (placeholder kb) vb b"
    using placeholder_nonempty assms(1) by (rule str_replace_leftmost)
  also have "str_replace (placeholder kb) vb b = b"
    using placeholder_nonempty assms(2) by (rule str_replace_absent)
  finally show ?thesis .
qed

text \<open>
  C9. Substitution is sequential, not simultaneous. The token of a key is the key
  between two opening and two closing braces; one pass for a key leaves a string without
  the token as it is, and replaces the leftmost occurrence of the token and goes on
  behind it. In every document, every string leaf is sent through the keys of the
  replacement set in their order, each pass working on the string the passes before it
  left; so substituting with one replacement set followed by another is substituting
  with the first and then, on the result, with the second. A value written for an
  earlier key is scanned for the token of a later key: when the value of the earlier key
  contains the token of the later key (once, so that the outcome can be written down),
  a leaf that is the earlier token, inside a list inside a mapping, ends with the later
  key's value in the place of that token. Simultaneous substitution keeps the token
  there, so the two results differ unless the later key's value is its own token.
\<close>

theorem substitute_in_sequence:
  "placeholder key = ''{{'' @ key @ ''}}''
   \<and> (\<forall>s. \<not> sublist (placeholder key) s \<longrightarrow> str_replace (placeholder key) val s = s)
   \<and> (\<forall>p q. \<not> sublist (placeholder key) (p @ butlast (placeholder key)) \<longrightarrow>
         str_replace (placeholder key) val (p @ placeholder key @ q) =
           p @ val @ str_replace (placeholder key) val q)
   \<and> replace_placeholders doc reps =
       map_strings (\<lambda>s. fold (\<lambda>(k, v). str_replace (placeholder k) v) reps s) doc
   \<and> replace_placeholders doc (ra @ rb) = replace_placeholders (replace_placeholders doc ra) rb
   \<and> replace_placeholders (JStr (placeholder ka)) [(ka, va), (kb, vb)] =
       JStr (str_replace (placeholder kb) vb va)
   \<and> replace_placeholders (JStr (placeholder ka)) [(ka, placeholder kb), (kb, vb)] = JStr vb
   \<and> (\<not> sublist (placeholder kb) (a @ butlast (placeholder kb)) \<and> \<not> sublist (placeholder kb) b \<longrightarrow>
        replace_placeholders (JObj [(field, JArr [JStr (placeholder ka)])])
            [(ka, a @ placeholder kb @ b), (kb, vb)]
          = JObj [(field, JArr [JStr (a @ vb @ b)])]
        \<and> substitute_simultaneous (JObj [(field, JArr [JStr (placeholder ka)])])
            [(ka, a @ placeholder kb @ b), (kb, vb)]
          = JObj [(field, JArr [JStr (a @ placeholder kb @ b)])]
        \<and> (vb \<noteq> placeholder kb \<longrightarrow>
             replace_placeholders (JObj [(field, JArr [JStr (placeholder ka)])])
                 [(ka, a @ placeholder kb @ b), (kb, vb)]
             \<noteq> substitute_simultaneous (JObj [(field, JArr [JStr (placeholder ka)])])
                 [(ka, a @ placeholder kb @ b), (kb, vb)]))
   \<and> (\<exists>d rs. replace_placeholders d rs \<noteq> substitute_simultaneous d rs)"
proof -
  let ?doc = "JObj [(field, JArr [JStr (placeholder ka)])]"
  let ?reps = "[(ka, a @ placeholder kb @ b), (kb, vb)]"
  have c1: "placeholder key = ''{{'' @ key @ ''}}''"
    by (simp add: placeholder_def)
  have c2: "\<forall>s. \<not> sublist (placeholder key) s \<longrightarrow> str_replace (placeholder key) val s = s"
    using str_replace_absent [OF placeholder_nonempty] by blast
  have c3: "\<forall>p q. \<not> sublist (placeholder key) (p @ butlast (placeholder key)) \<longrightarrow>
         str_replace (placeholder key) val (p @ placeholder key @ q) =
           p @ val @ str_replace (placeholder key) val q"
    using str_replace_leftmost [OF placeholder_nonempty] by blast
  have c4: "replace_placeholders doc reps =
       map_strings (\<lambda>s. fold (\<lambda>(k, v). str_replace (placeholder k) v) reps s) doc"
    by (simp add: replace_placeholders_map_strings replace_str_fold)
  have c5: "replace_placeholders doc (ra @ rb) = replace_placeholders (replace_placeholders doc ra) rb"
    by (rule replace_placeholders_append)
  have c6: "replace_placeholders (JStr (placeholder ka)) [(ka, va), (kb, vb)] =
       JStr (str_replace (placeholder kb) vb va)"
    by (simp add: str_replace_self placeholder_nonempty)
  have c7: "replace_placeholders (JStr (placeholder ka)) [(ka, placeholder kb), (kb, vb)] = JStr vb"
    by (simp add: str_replace_self placeholder_nonempty)
  have c8: "\<not> sublist (placeholder kb) (a @ butlast (placeholder kb)) \<and> \<not> sublist (placeholder kb) b \<longrightarrow>
        replace_placeholders ?doc ?reps = JObj [(field, JArr [JStr (a @ vb @ b)])]
        \<and> substitute_simultaneous ?doc ?reps = JObj [(field, JArr [JStr (a @ placeholder kb @ b)])]
        \<and> (vb \<noteq> placeholder kb \<longrightarrow>
             replace_placeholders ?doc ?reps \<noteq> substitute_simultaneous ?doc ?reps)"
  proof (intro impI, elim conjE)
    assume h1: "\<not> sublist (placeholder kb) (a @ butlast (placeholder kb))"
       and h2: "\<not> sublist (placeholder kb) b"
    from h1 h2 have "replace_str (placeholder ka) ?reps = a @ vb @ b"
      by (rule replace_str_chained)
    then have r: "replace_placeholders ?doc ?reps = JObj [(field, JArr [JStr (a @ vb @ b)])]"
      by (simp del: replace_str.simps)
    have s: "substitute_simultaneous ?doc ?reps = JObj [(field, JArr [JStr (a @ placeholder kb @ b)])]"
      by (simp add: substitute_simultaneous_def simultaneous_str_token del: simultaneous_str.simps)
    show "replace_placeholders ?doc ?reps = JObj [(field, JArr [JStr (a @ vb @ b)])]
        \<and> substitute_simultaneous ?doc ?reps = JObj [(field, JArr [JStr (a @ placeholder kb @ b)])]
        \<and> (vb \<noteq> placeholder kb \<longrightarrow>
             replace_placeholders ?doc ?reps \<noteq> substitute_simultaneous ?doc ?reps)"
      unfolding r s by simp
  qed
  have "replace_placeholders (JStr ''{{FIRST}}'') [(''FIRST'', ''{{SECOND}}''), (''SECOND'', ''done'')]
      \<noteq> substitute_simultaneous (JStr ''{{FIRST}}'') [(''FIRST'', ''{{SECOND}}''), (''SECOND'', ''done'')]"
    by (simp add: substitute_simultaneous_def placeholder_def str_replace_def)
  then have c9: "\<exists>d rs. replace_placeholders d rs \<noteq> substitute_simultaneous d rs"
    by blast
  from c1 c2 c3 c4 c5 c6 c7 c8 c9 show ?thesis
    by (intro conjI)
qed

theorem substitute_in_sequence_witness:
  "placeholder ''B'' = ''{{B}}'' \<and>
   \<not> sublist (placeholder ''B'') (''see '' @ butlast (placeholder ''B'')) \<and>
   \<not> sublist (placeholder ''B'') ''!'' \<and>
   ''x'' \<noteq> placeholder ''B'' \<and>
   replace_placeholders (JObj [(''t'', JArr [JStr ''{{A}}''])]) [(''A'', ''see {{B}}!''), (''B'', ''x'')]
     = JObj [(''t'', JArr [JStr ''see x!''])] \<and>
   substitute_simultaneous (JObj [(''t'', JArr [JStr ''{{A}}''])]) [(''A'', ''see {{B}}!''), (''B'', ''x'')]
     = JObj [(''t'', JArr [JStr ''see {{B}}!''])]"
proof -
  have h1: "\<not> sublist (placeholder ''B'') (''see '' @ butlast (placeholder ''B''))" by code_simp
  have h2: "\<not> sublist (placeholder ''B'') ''!''" by code_simp
  have pa: "placeholder ''A'' = ''{{A}}''" and pb: "placeholder ''B'' = ''{{B}}''"
    by (simp_all add: placeholder_def)
  have ne: "''x'' \<noteq> placeholder ''B''"
    by (simp add: pb)
  have main:
    "replace_placeholders (JObj [(''t'', JArr [JStr (placeholder ''A'')])])
         [(''A'', ''see '' @ placeholder ''B'' @ ''!''), (''B'', ''x'')]
       = JObj [(''t'', JArr [JStr (''see '' @ ''x'' @ ''!'')])] \<and>
     substitute_simultaneous (JObj [(''t'', JArr [JStr (placeholder ''A'')])])
         [(''A'', ''see '' @ placeholder ''B'' @ ''!''), (''B'', ''x'')]
       = JObj [(''t'', JArr [JStr (''see '' @ placeholder ''B'' @ ''!'')])]"
    using h1 h2
      substitute_in_sequence [where key = "''B''" and val = "''x''" and doc = JNull and reps = "[]"
        and ra = "[]" and rb = "[]" and ka = "''A''" and va = "[]" and kb = "''B''" and vb = "''x''"
        and a = "''see ''" and b = "''!''" and field = "''t''"]
    by blast
  have m1: "replace_placeholders (JObj [(''t'', JArr [JStr ''{{A}}''])])
        [(''A'', ''see {{B}}!''), (''B'', ''x'')] = JObj [(''t'', JArr [JStr ''see x!''])]"
    and m2: "substitute_simultaneous (JObj [(''t'', JArr [JStr ''{{A}}''])])
        [(''A'', ''see {{B}}!''), (''B'', ''x'')] = JObj [(''t'', JArr [JStr ''see {{B}}!''])]"
    using main by (simp_all only: pa pb append_Cons append_Nil)
  from pb h1 h2 ne m1 m2 show ?thesis
    by (intro conjI)
qed

section \<open>Properties of the page body\<close>

lemma map_of_dict_set: "map_of (dict_set k v kvs) = (map_of kvs)(k \<mapsto> v)"
  by (simp add: dict_set_def update_conv')

lemma map_of_dict_pop: "map_of (dict_pop k kvs) = (map_of kvs)(k := None)"
  by (simp add: dict_pop_def delete_conv')

text \<open>
  C7 does not hold for \<open>cmd_create_page\<close>: the body it hands on has no \<open>icon\<close>.
\<close>

theorem page_body_no_icon_counterexample:
  "cmd_create_page (Some (JObj [(''properties'', JObj [])])) None (JStr ''p1'')
     = Inr (JObj [(''properties'', JObj []), (''parent'', JObj [(''page_id'', JStr ''p1'')])])
   \<and> map_of [(''properties'', JObj []), (''parent'', JObj [(''page_id'', JStr ''p1'')])] ''icon''
     = None"
  by (simp add: cmd_create_page_def dict_set_def)

text \<open>
  C7, amended. For a template that is a mapping, \<open>create_project_page\<close> hands on the
  substituted template with \<open>parent\<close> and \<open>icon\<close> set, without \<open>object\<close>, and with every
  other top-level field as substitution left it. \<open>cmd_create_page\<close> does not substitute:
  it hands on the template with \<open>parent\<close> set and every top-level field other than
  \<open>parent\<close> and \<open>object\<close> as it was loaded; it sets no \<open>icon\<close>.
\<close>

theorem page_body_fields:
  assumes "template = JObj tkvs"
  shows "\<exists>substituted body raw_body.
           replace_placeholders template [(''PROJECT_NAME'', project_name), (''DATE'', today)]
             = JObj substituted \<and>
           create_project_page template parent_id project_name today icon = Inr (JObj body) \<and>
           map_of body ''parent'' = Some (JObj [(''page_id'', parent_id)]) \<and>
           map_of body ''icon'' = Some (JObj [(''type'', JStr ''emoji''), (''emoji'', JStr icon)]) \<and>
           map_of body ''object'' = None \<and>
           (\<forall>k. k \<notin> {''parent'', ''icon'', ''object''} \<longrightarrow> map_of body k = map_of substituted k) \<and>
           cmd_create_page (Some template) title parent_id = Inr (JObj raw_body) \<and>
           map_of raw_body ''parent'' = Some (JObj [(''page_id'', parent_id)]) \<and>
           (\<forall>k. k \<notin> {''parent'', ''object''} \<longrightarrow> map_of raw_body k = map_of tkvs k)"
  using assms
  by (simp add: create_project_page_def cmd_create_page_def map_of_dict_set map_of_dict_pop)

theorem page_body_fields_witness:
  "create_project_page
     (JObj [(''object'', JStr ''page''), (''properties'', JStr ''{{PROJECT_NAME}}'')])
     (JStr ''p1'') ''Apollo'' ''2024-01-01'' ''*''
   = Inr (JObj [(''properties'', JStr ''Apollo''),
                (''parent'', JObj [(''page_id'', JStr ''p1'')]),
                (''icon'', JObj [(''type'', JStr ''emoji''), (''emoji'', JStr ''*'')])])"
proof -
  have e: "replace_str ''{{PROJECT_NAME}}'' [(''PROJECT_NAME'', ''Apollo''), (''DATE'', ''2024-01-01'')] = ''Apollo''"
    by code_simp
  show ?thesis
    using e page_body_fields [of
        "JObj [(''object'', JStr ''page''), (''properties'', JStr ''{{PROJECT_NAME}}'')]"
        "[(''object'', JStr ''page''), (''properties'', JStr ''{{PROJECT_NAME}}'')]"
        "''Apollo''" "''2024-01-01''" "JStr ''p1''" "''*''" None]
    by (simp add: create_project_page_def dict_set_def dict_pop_def)
qed

section \<open>Properties of the store\<close>

lemma those_map_Some_iff:
  "those (map f xs) = Some ys \<longleftrightarrow> list_all2 (\<lambda>x y. f x = Some y) xs ys"
proof (induction xs arbitrary: ys)
  case Nil
  then show ?case by auto
next
  case (Cons x xs)
  show ?case
  proof (cases "f x")
    case None
    then show ?thesis by (auto simp: list_all2_Cons1)
  next
    case (Some y)
    then show ?thesis
      using Cons.IH by (cases "those (map f xs)") (auto simp: list_all2_Cons1)
  qed
qed

lemma prefix_nth: "prefix h h' \<Longrightarrow> a < length h \<Longrightarrow> h' ! a = h ! a"
  by (auto simp: prefix_def nth_append)

lemma replace_loop_spec:
  assumes "a < length h" and "h ! a = OStr s"
  shows "\<exists>a' h'. replace_loop h a s reps = (a', h') \<and> prefix h h' \<and>
           a' < length h' \<and> h' ! a' = OStr (replace_str s reps)"
  using assms
proof (induction reps arbitrary: h a s)
  case Nil
  then show ?case by simp
next
  case (Cons kv reps)
  obtain key val where kv: "kv = (key, val)" by (cases kv)
  let ?s = "str_replace (placeholder key) val s"
  let ?h = "h @ [OStr ?s]"
  have "length h < length ?h" "?h ! length h = OStr ?s" by simp_all
  from Cons.IH [OF this] obtain a' h' where
    r: "replace_loop ?h (length h) ?s reps = (a', h')" and p: "prefix ?h h'"
    and l: "a' < length h'" and v: "h' ! a' = OStr (replace_str ?s reps)"
    by blast
  from p have "prefix h h'"
    using append_prefixD by blast
  with r l v kv show ?case
    by (simp add: alloc_def)
qed

lemma read_doc_Suc_lt: "read_doc (Suc n) h a = Some d \<Longrightarrow> a < length h"
  by (simp split: if_splits)

lemma read_doc_list:
  "a < length h \<Longrightarrow> h ! a = OList items \<Longrightarrow>
   read_doc (Suc n) h a = Some d \<longleftrightarrow>
     (\<exists>xs. list_all2 (\<lambda>x y. read_doc n h x = Some y) items xs \<and> d = JArr xs)"
  by (auto simp: those_map_Some_iff)

lemma read_doc_dict:
  "a < length h \<Longrightarrow> h ! a = ODict kvs \<Longrightarrow>
   read_doc (Suc n) h a = Some d \<longleftrightarrow>
     (\<exists>vs. list_all2 (\<lambda>kv y. read_doc n h (snd kv) = Some y) kvs vs \<and>
           d = JObj (zip (map fst kvs) vs))"
  by (auto simp: those_map_Some_iff list_all2_map1)

lemma read_doc_leaf:
  "a < length h \<Longrightarrow> \<forall>items. h ! a \<noteq> OList items \<Longrightarrow> \<forall>kvs. h ! a \<noteq> ODict kvs \<Longrightarrow>
   read_doc (Suc n) h a =
     Some (case h ! a of ONone \<Rightarrow> JNull | OBool b \<Rightarrow> JBool b | OInt i \<Rightarrow> JInt i
           | OFloat f \<Rightarrow> JFloat f | OStr s \<Rightarrow> JStr s)"
  by (cases "h ! a") simp_all

lemma read_doc_extend:
  "read_doc n h a = Some d \<Longrightarrow> prefix h h' \<Longrightarrow> read_doc n h' a = Some d"
proof (induction n arbitrary: a d)
  case 0
  then show ?case by simp
next
  case (Suc n)
  from Suc.prems(1) have lt: "a < length h"
    by (rule read_doc_Suc_lt)
  with Suc.prems(2) have lt': "a < length h'" and nth: "h' ! a = h ! a"
    by (auto simp: prefix_nth dest: prefix_length_le)
  show ?case
  proof (cases "h ! a")
    case (OList items)
    with Suc.prems(1) lt obtain xs where
      xs: "list_all2 (\<lambda>x y. read_doc n h x = Some y) items xs" and d: "d = JArr xs"
      by (auto simp only: read_doc_list)
    from xs have "list_all2 (\<lambda>x y. read_doc n h' x = Some y) items xs"
      by (rule list_all2_mono) (rule Suc.IH [OF _ Suc.prems(2)])
    with d lt' nth OList show ?thesis
      by (auto simp only: read_doc_list)
  next
    case (ODict kvs)
    with Suc.prems(1) lt obtain vs where
      vs: "list_all2 (\<lambda>kv y. read_doc n h (snd kv) = Some y) kvs vs"
      and d: "d = JObj (zip (map fst kvs) vs)"
      by (auto simp only: read_doc_dict)
    from vs have "list_all2 (\<lambda>kv y. read_doc n h' (snd kv) = Some y) kvs vs"
      by (rule list_all2_mono) (rule Suc.IH [OF _ Suc.prems(2)])
    with d lt' nth ODict show ?thesis
      by (auto simp only: read_doc_dict)
  next
    case ONone
    with Suc.prems(1) lt lt' nth show ?thesis by simp
  next
    case (OBool b)
    with Suc.prems(1) lt lt' nth show ?thesis by simp
  next
    case (OInt i)
    with Suc.prems(1) lt lt' nth show ?thesis by simp
  next
    case (OFloat f)
    with Suc.prems(1) lt lt' nth show ?thesis by simp
  next
    case (OStr s)
    with Suc.prems(1) lt lt' nth show ?thesis by simp
  qed
qed

lemma comprehension_spec:
  assumes f: "\<And>h a x. read_doc n h a = Some x \<Longrightarrow>
                \<exists>a' h'. f h a = Some (a', h') \<and> prefix h h' \<and> read_doc n h' a' = Some (g x)"
      and items: "list_all2 (\<lambda>a x. read_doc n h a = Some x) items xs"
  shows "\<exists>items' h'. comprehension f h items = Some (items', h') \<and> prefix h h' \<and>
           list_all2 (\<lambda>a y. read_doc n h' a = Some y) items' (map g xs)"
  using items
proof (induction items arbitrary: h xs)
  case Nil
  then show ?case by simp
next
  case (Cons a as)
  from Cons.prems obtain x xs' where xs: "xs = x # xs'"
    and a: "read_doc n h a = Some x"
    and as: "list_all2 (\<lambda>a x. read_doc n h a = Some x) as xs'"
    by (auto simp: list_all2_Cons1)
  from f [OF a] obtain a' h1 where fa: "f h a = Some (a', h1)" and p1: "prefix h h1"
    and r1: "read_doc n h1 a' = Some (g x)"
    by blast
  from as have "list_all2 (\<lambda>a x. read_doc n h1 a = Some x) as xs'"
    by (rule list_all2_mono) (rule read_doc_extend [OF _ p1])
  from Cons.IH [OF this] obtain as' h2 where
    c: "comprehension f h1 as = Some (as', h2)" and p2: "prefix h1 h2"
    and r2: "list_all2 (\<lambda>a y. read_doc n h2 a = Some y) as' (map g xs')"
    by blast
  from r1 p2 have "read_doc n h2 a' = Some (g x)"
    by (rule read_doc_extend)
  moreover from p1 p2 have "prefix h h2"
    by (rule prefix_order.trans)
  ultimately show ?case
    using fa c r2 xs by simp
qed

lemma replace_placeholders_h_spec:
  "read_doc n h a = Some doc \<Longrightarrow>
   \<exists>a' h'. replace_placeholders_h n h a reps = Some (a', h') \<and> prefix h h' \<and>
           read_doc n h' a' = Some (replace_placeholders doc reps)"
proof (induction n arbitrary: h a doc)
  case 0
  then show ?case by simp
next
  case (Suc n)
  let ?g = "\<lambda>x. replace_placeholders x reps"
  let ?f = "\<lambda>h' item. replace_placeholders_h n h' item reps"
  from Suc.prems have lt: "a < length h"
    by (rule read_doc_Suc_lt)
  show ?case
  proof (cases "h ! a")
    case (OStr s)
    with Suc.prems lt have doc: "doc = JStr s" by simp
    from replace_loop_spec [OF lt OStr, of reps] obtain a' h' where
      "replace_loop h a s reps = (a', h')" "prefix h h'" "a' < length h'"
      "h' ! a' = OStr (replace_str s reps)"
      by blast
    with doc lt OStr show ?thesis by simp
  next
    case (OList items)
    with Suc.prems lt obtain xs where
      xs: "list_all2 (\<lambda>x y. read_doc n h x = Some y) items xs" and doc: "doc = JArr xs"
      by (auto simp only: read_doc_list)
    from comprehension_spec [of n ?f ?g, OF Suc.IH xs] obtain items' h1 where
      c: "comprehension ?f h items = Some (items', h1)" and p: "prefix h h1"
      and r: "list_all2 (\<lambda>a y. read_doc n h1 a = Some y) items' (map ?g xs)"
      by blast
    let ?h = "h1 @ [OList items']"
    have ph: "prefix h1 ?h" by simp
    from r have "list_all2 (\<lambda>a y. read_doc n ?h a = Some y) items' (map ?g xs)"
      by (rule list_all2_mono) (rule read_doc_extend [OF _ ph])
    moreover have "read_doc (Suc n) ?h (length h1) = Some (JArr (map ?g xs))
        \<longleftrightarrow> (\<exists>ys. list_all2 (\<lambda>a y. read_doc n ?h a = Some y) items' ys \<and>
               JArr (map ?g xs) = JArr ys)"
      by (rule read_doc_list) simp_all
    ultimately have "read_doc (Suc n) ?h (length h1) = Some (JArr (map ?g xs))"
      by blast
    moreover from p ph have "prefix h ?h"
      by (rule prefix_order.trans)
    moreover have "replace_placeholders_h (Suc n) h a reps = Some (length h1, ?h)"
      using lt OList c by (simp add: alloc_def)
    ultimately show ?thesis
      using doc by simp
  next
    case (ODict kvs)
    with Suc.prems lt obtain vs where
      vs: "list_all2 (\<lambda>kv y. read_doc n h (snd kv) = Some y) kvs vs"
      and doc: "doc = JObj (zip (map fst kvs) vs)"
      by (auto simp only: read_doc_dict)
    from vs have "list_all2 (\<lambda>x y. read_doc n h x = Some y) (map snd kvs) vs"
      by (simp add: list_all2_map1)
    from comprehension_spec [of n ?f ?g, OF Suc.IH this] obtain vs' h1 where
      c: "comprehension ?f h (map snd kvs) = Some (vs', h1)" and p: "prefix h h1"
      and r: "list_all2 (\<lambda>a y. read_doc n h1 a = Some y) vs' (map ?g vs)"
      by blast
    from vs have len: "length vs = length kvs"
      by (simp add: list_all2_lengthD)
    from r have len': "length vs' = length kvs"
      using len by (auto dest: list_all2_lengthD)
    let ?kvs = "zip (map fst kvs) vs'"
    let ?h = "h1 @ [ODict ?kvs]"
    have ph: "prefix h1 ?h" by simp
    have fst: "map fst ?kvs = map fst kvs" and snd: "map snd ?kvs = vs'"
      using len' by simp_all
    from r have "list_all2 (\<lambda>a y. read_doc n ?h a = Some y) (map snd ?kvs) (map ?g vs)"
      unfolding snd by (rule list_all2_mono) (rule read_doc_extend [OF _ ph])
    then have "list_all2 (\<lambda>kv y. read_doc n ?h (snd kv) = Some y) ?kvs (map ?g vs)"
      by (simp only: list_all2_map1)
    moreover have "read_doc (Suc n) ?h (length h1) = Some (JObj (zip (map fst ?kvs) (map ?g vs)))
        \<longleftrightarrow> (\<exists>ws. list_all2 (\<lambda>kv y. read_doc n ?h (snd kv) = Some y) ?kvs ws \<and>
               JObj (zip (map fst ?kvs) (map ?g vs)) = JObj (zip (map fst ?kvs) ws))"
      by (rule read_doc_dict) simp_all
    ultimately have "read_doc (Suc n) ?h (length h1) = Some (JObj (zip (map fst ?kvs) (map ?g vs)))"
      by blast
    then have "read_doc (Suc n) ?h (length h1) = Some (JObj (zip (map fst kvs) (map ?g vs)))"
      by (simp only: fst)
    moreover have "replace_placeholders doc reps = JObj (zip (map fst kvs) (map ?g vs))"
      using doc by (simp add: zip_map2)
    moreover from p ph have "prefix h ?h"
      by (rule prefix_order.trans)
    moreover have "replace_placeholders_h (Suc n) h a reps = Some (length h1, ?h)"
      using lt ODict c by (simp add: alloc_def)
    ultimately show ?thesis
      by simp
  next
    case ONone
    with Suc.prems lt show ?thesis by auto
  next
    case (OBool b)
    with Suc.prems lt show ?thesis by auto
  next
    case (OInt i)
    with Suc.prems lt show ?thesis by auto
  next
    case (OFloat f)
    with Suc.prems lt show ?thesis by auto
  qed
qed

lemma read_doc_mono:
  "read_doc n h a = Some d \<Longrightarrow> n \<le> m \<Longrightarrow> read_doc m h a = Some d"
proof (induction n arbitrary: a d m)
  case 0
  then show ?case by simp
next
  case (Suc n)
  from Suc.prems(2) obtain m' where m: "m = Suc m'" and le: "n \<le> m'"
    by (cases m) auto
  from Suc.prems(1) have lt: "a < length h"
    by (rule read_doc_Suc_lt)
  show ?case
  proof (cases "h ! a")
    case (OList items)
    with Suc.prems(1) lt obtain xs where
      xs: "list_all2 (\<lambda>x y. read_doc n h x = Some y) items xs" and d: "d = JArr xs"
      by (auto simp only: read_doc_list)
    from xs have "list_all2 (\<lambda>x y. read_doc m' h x = Some y) items xs"
      by (rule list_all2_mono) (rule Suc.IH [OF _ le])
    with d lt OList show ?thesis
      unfolding m by (auto simp only: read_doc_list)
  next
    case (ODict kvs)
    with Suc.prems(1) lt obtain vs where
      vs: "list_all2 (\<lambda>kv y. read_doc n h (snd kv) = Some y) kvs vs"
      and d: "d = JObj (zip (map fst kvs) vs)"
      by (auto simp only: read_doc_dict)
    from vs have "list_all2 (\<lambda>kv y. read_doc m' h (snd kv) = Some y) kvs vs"
      by (rule list_all2_mono) (rule Suc.IH [OF _ le])
    with d lt ODict show ?thesis
      unfolding m by (auto simp only: read_doc_dict)
  next
    case ONone
    with Suc.prems(1) lt m show ?thesis by simp
  next
    case (OBool b)
    with Suc.prems(1) lt m show ?thesis by simp
  next
    case (OInt i)
    with Suc.prems(1) lt m show ?thesis by simp
  next
    case (OFloat f)
    with Suc.prems(1) lt m show ?thesis by simp
  next
    case (OStr s)
    with Suc.prems(1) lt m show ?thesis by simp
  qed
qed

text \<open>
  C4. \<open>replace_placeholders\<close> does not change the document it is given. If the
  reference \<open>obj\<close> stands for the document \<open>doc\<close> in the store \<open>h\<close>, within a depth that
  the recursion limit allows, then the call returns; every object of \<open>h\<close> is in the store
  after the call what it was before, new objects having been added behind them; \<open>obj\<close>
  still stands for \<open>doc\<close>; and the reference returned stands for the substituted
  document. (A leaf that is no string is shared by the two documents.)
\<close>

theorem substitute_leaves_input_unchanged:
  assumes "read_doc n h obj = Some doc" and "n \<le> limit"
  shows "\<exists>result h'.
           replace_placeholders_h limit h obj reps = Some (result, h') \<and>
           take (length h) h' = h \<and>
           read_doc n h' obj = Some doc \<and>
           read_doc limit h' result = Some (replace_placeholders doc reps)"
proof -
  from assms have "read_doc limit h obj = Some doc"
    by (rule read_doc_mono)
  from replace_placeholders_h_spec [OF this, of reps] obtain result h' where
    r: "replace_placeholders_h limit h obj reps = Some (result, h')" and p: "prefix h h'"
    and d: "read_doc limit h' result = Some (replace_placeholders doc reps)"
    by blast
  from p have "take (length h) h' = h"
    by (auto simp: prefix_def)
  moreover from assms(1) p have "read_doc n h' obj = Some doc"
    by (rule read_doc_extend)
  ultimately show ?thesis
    using r d by blast
qed

theorem substitute_leaves_input_unchanged_witness:
  "read_doc 3 [OStr ''{{PROJECT_NAME}}'', OInt 1, OList [0, 1], ODict [(''title'', 2)]] 3
     = Some (JObj [(''title'', JArr [JStr ''{{PROJECT_NAME}}'', JInt 1])]) \<and>
   replace_placeholders_h 3
     [OStr ''{{PROJECT_NAME}}'', OInt 1, OList [0, 1], ODict [(''title'', 2)]] 3
     [(''PROJECT_NAME'', ''Apollo'')]
     = Some (6, [OStr ''{{PROJECT_NAME}}'', OInt 1, OList [0, 1], ODict [(''title'', 2)],
                 OStr ''Apollo'', OList [4, 1], ODict [(''title'', 5)]]) \<and>
   read_doc 3 [OStr ''{{PROJECT_NAME}}'', OInt 1, OList [0, 1], ODict [(''title'', 2)],
               OStr ''Apollo'', OList [4, 1], ODict [(''title'', 5)]] 3
     = Some (JObj [(''title'', JArr [JStr ''{{PROJECT_NAME}}'', JInt 1])]) \<and>
   read_doc 3 [OStr ''{{PROJECT_NAME}}'', OInt 1, OList [0, 1], ODict [(''title'', 2)],
               OStr ''Apollo'', OList [4, 1], ODict [(''title'', 5)]] 6
     = Some (JObj [(''title'', JArr [JStr ''Apollo'', JInt 1])])"
proof -
  have r: "read_doc 3 [OStr ''{{PROJECT_NAME}}'', OInt 1, OList [0, 1], ODict [(''title'', 2)]] 3
     = Some (JObj [(''title'', JArr [JStr ''{{PROJECT_NAME}}'', JInt 1])])"
    by code_simp
  have e: "replace_placeholders_h 3
     [OStr ''{{PROJECT_NAME}}'', OInt 1, OList [0, 1], ODict [(''title'', 2)]] 3
     [(''PROJECT_NAME'', ''Apollo'')]
     = Some (6, [OStr ''{{PROJECT_NAME}}'', OInt 1, OList [0, 1], ODict [(''title'', 2)],
                 OStr ''Apollo'', OList [4, 1], ODict [(''title'', 5)]])"
    by code_simp
  have s: "replace_placeholders (JObj [(''title'', JArr [JStr ''{{PROJECT_NAME}}'', JInt 1])])
      [(''PROJECT_NAME'', ''Apollo'')] = JObj [(''title'', JArr [JStr ''Apollo'', JInt 1])]"
    by code_simp
  show ?thesis
    using substitute_leaves_input_unchanged [OF r order_refl, of "[(''PROJECT_NAME'', ''Apollo'')]"]
    unfolding e s using r e by auto
qed

end
